theory Spec2Isabelle
  imports Main "HOL-Library.Char_ord" "HOL-Library.List_Lexorder" "HOL-Library.AList"
begin

section \<open>Strings and paths\<close>

text \<open>
  A Python \<open>str\<close> is modelled by a HOL \<open>string\<close>, read as the UTF-8 bytes of the text:
  substring containment and the order of two texts are the same on the bytes as on the
  code points. Byte strings (\<open>bytes\<close>) are \<open>string\<close>s as well; the null byte is
  \<open>CHR 0x00\<close>. Case folding is modelled on ASCII only. File names are taken to be
  valid UTF-8, so that writing a path to the output file does not raise.
\<close>

text \<open>
  The characters of a text, each the bytes of its UTF-8 encoding: a byte from \<open>0x80\<close> to
  \<open>0xBF\<close> continues the character that the bytes before it began.
\<close>

definition is_continuation :: "char \<Rightarrow> bool" where
  "is_continuation c = (CHR 0x80 \<le> c \<and> c < CHR 0xC0)"

fun chars :: "string \<Rightarrow> string list" where
  "chars [] = []"
| "chars (c # cs) =
     (case chars cs of
        [] \<Rightarrow> [[c]]
      | g # gs \<Rightarrow>
          if CHR 0x80 \<le> c \<and> is_continuation (hd g) then (c # g) # gs else [c] # g # gs)"

text \<open>
  The white space of \<open>str.strip()\<close> and \<open>str.isspace()\<close>: U+0009 to U+000D, U+001C to
  U+001F, U+0020, U+0085, U+00A0, U+1680, U+2000 to U+200A, U+2028, U+2029, U+202F, U+205F
  and U+3000, each in UTF-8.
\<close>

definition whitespace :: "string list" where
  "whitespace =
     [[CHR 0x09], [CHR 0x0A], [CHR 0x0B], [CHR 0x0C], [CHR 0x0D],
      [CHR 0x1C], [CHR 0x1D], [CHR 0x1E], [CHR 0x1F], [CHR 0x20],
      [CHR 0xC2, CHR 0x85], [CHR 0xC2, CHR 0xA0], [CHR 0xE1, CHR 0x9A, CHR 0x80],
      [CHR 0xE2, CHR 0x80, CHR 0x80], [CHR 0xE2, CHR 0x80, CHR 0x81],
      [CHR 0xE2, CHR 0x80, CHR 0x82], [CHR 0xE2, CHR 0x80, CHR 0x83],
      [CHR 0xE2, CHR 0x80, CHR 0x84], [CHR 0xE2, CHR 0x80, CHR 0x85],
      [CHR 0xE2, CHR 0x80, CHR 0x86], [CHR 0xE2, CHR 0x80, CHR 0x87],
      [CHR 0xE2, CHR 0x80, CHR 0x88], [CHR 0xE2, CHR 0x80, CHR 0x89],
      [CHR 0xE2, CHR 0x80, CHR 0x8A], [CHR 0xE2, CHR 0x80, CHR 0xA8],
      [CHR 0xE2, CHR 0x80, CHR 0xA9], [CHR 0xE2, CHR 0x80, CHR 0xAF],
      [CHR 0xE2, CHR 0x81, CHR 0x9F], [CHR 0xE3, CHR 0x80, CHR 0x80]]"

definition isspace :: "string \<Rightarrow> bool" where
  "isspace ch = (ch \<in> set whitespace)"

text \<open>\<open>s.strip()\<close>: the white space characters removed at both ends.\<close>

definition strip :: "string \<Rightarrow> string" where
  "strip s = concat (rev (dropWhile isspace (rev (dropWhile isspace (chars s)))))"

text \<open>\<open>s.startswith(p)\<close>.\<close>

fun startswith :: "string \<Rightarrow> string \<Rightarrow> bool" where
  "startswith s [] = True"
| "startswith [] (p # ps) = False"
| "startswith (c # cs) (p # ps) = (c = p \<and> startswith cs ps)"

text \<open>\<open>needle in content\<close> on strings: the needle occurs at some position.\<close>

fun contains :: "string \<Rightarrow> string \<Rightarrow> bool" where
  "contains [] needle = (needle = [])"
| "contains (c # cs) needle = (startswith (c # cs) needle \<or> contains cs needle)"

definition lower_char :: "char \<Rightarrow> char" where
  "lower_char c = (if CHR ''A'' \<le> c \<and> c \<le> CHR ''Z''
                   then char_of (of_char c + (32 :: nat)) else c)"

text \<open>\<open>s.lower()\<close>.\<close>

definition lower :: "string \<Rightarrow> string" where
  "lower s = map lower_char s"

text \<open>\<open>s.rfind(c)\<close>: the last index of \<open>c\<close>, or \<open>-1\<close>.\<close>

fun rfind :: "string \<Rightarrow> char \<Rightarrow> int" where
  "rfind [] c = - 1"
| "rfind (x # xs) c =
     (let r = rfind xs c in if 0 \<le> r then r + 1 else if x = c then 0 else - 1)"

text \<open>
  A \<open>pathlib.Path\<close> is absolute here (the search path is resolved) and is the list of its
  components below the root directory \<open>/\<close>.
\<close>

type_synonym path = "string list"

text \<open>\<open>Path.name\<close>: the final component, empty for \<open>/\<close>.\<close>

definition path_name :: "path \<Rightarrow> string" where
  "path_name p = (if p = [] then [] else last p)"

text \<open>\<open>Path.suffix\<close>: the part of the name from its last dot, when that dot is neither
  the first nor the last character.\<close>

definition suffix :: "path \<Rightarrow> string" where
  "suffix p =
     (let name = path_name p; i = rfind name CHR ''.''
      in if 0 < i \<and> i < int (length name) - 1 then drop (nat i) name else [])"

text \<open>\<open>str(path)\<close>.\<close>

definition path_str :: "path \<Rightarrow> string" where
  "path_str p = (if p = [] then ''/'' else concat (map (\<lambda>c. CHR ''/'' # c) p))"

section \<open>The file system\<close>

text \<open>What a call of the program can raise.\<close>

datatype error = OSError | UnicodeDecodeError | EOFError | KeyboardInterrupt

text \<open>
  A regular file is what the program's four ways of reading it return in the current state
  of the file system, each the data read or the exception raised:
  \<^item> \<open>read_rb\<close>: \<open>open(p, 'rb')\<close> and reading the bytes (\<open>f.read(n)\<close> returns the first
    \<open>n\<close> of them);
  \<^item> \<open>read_utf8\<close>: \<open>open(p, 'r', encoding='utf-8', errors='ignore')\<close> and \<open>f.read()\<close>;
  \<^item> \<open>read_latin1\<close>: the same with \<open>encoding='latin-1'\<close>;
  \<^item> \<open>read_text\<close>: \<open>open(p, 'r')\<close> and reading the text in the default encoding.
  The codecs are not modelled: a state gives the decoded texts.
\<close>

record file_io =
  read_rb :: "error + string"
  read_utf8 :: "error + string"
  read_latin1 :: "error + string"
  read_text :: "error + string"

text \<open>
  A node of the tree is a regular file, an entry that is neither a regular file nor a
  directory (device, socket, dangling link: \<open>is_file()\<close> is false), or a directory with
  its entries in the order \<open>os.scandir\<close> lists them. Symbolic links to directories and
  unreadable directories, which \<open>os.walk\<close> lists and does not enter, are left out.
\<close>

datatype node = Reg file_io | NonReg | Dir "(string \<times> node) list"

fun is_dir_node :: "node \<Rightarrow> bool" where
  "is_dir_node (Dir es) = True"
| "is_dir_node n = False"

fun is_reg_node :: "node \<Rightarrow> bool" where
  "is_reg_node (Reg d) = True"
| "is_reg_node n = False"

text \<open>The node a path names, from the root directory of the file system (the names in a
  directory are distinct; the first entry of a name is taken).\<close>

fun lookup :: "node \<Rightarrow> path \<Rightarrow> node option" where
  "lookup n [] = Some n"
| "lookup n (c # cs) =
     (case n of
        Dir es \<Rightarrow> (case map_of es c of None \<Rightarrow> None | Some m \<Rightarrow> lookup m cs)
      | _ \<Rightarrow> None)"

text \<open>\<open>Path.exists()\<close>, \<open>Path.is_dir()\<close>.\<close>

definition path_exists :: "node \<Rightarrow> path \<Rightarrow> bool" where
  "path_exists fs p = (lookup fs p \<noteq> None)"

definition path_is_dir :: "node \<Rightarrow> path \<Rightarrow> bool" where
  "path_is_dir fs p = (case lookup fs p of Some n \<Rightarrow> is_dir_node n | None \<Rightarrow> False)"

text \<open>Opening a path for reading fails with \<open>OSError\<close> unless it names a regular file.\<close>

definition open_read :: "(file_io \<Rightarrow> error + string) \<Rightarrow> node \<Rightarrow> path \<Rightarrow> error + string" where
  "open_read how fs p = (case lookup fs p of Some (Reg d) \<Rightarrow> how d | _ \<Rightarrow> Inl OSError)"

text \<open>Text mode reads translate \<open>\r\n\<close> and \<open>\r\<close> to \<open>\n\<close>; the flag says that the
  character before was \<open>\r\<close>.\<close>

fun universal_newlines :: "bool \<Rightarrow> string \<Rightarrow> string" where
  "universal_newlines after_cr [] = []"
| "universal_newlines after_cr (c # cs) =
     (if c = CHR 0x0D then CHR 0x0A # universal_newlines True cs
      else if c = CHR 0x0A \<and> after_cr then universal_newlines False cs
      else c # universal_newlines False cs)"

text \<open>Latin-1 gives every byte the code point of its value.\<close>

definition latin1_char :: "char \<Rightarrow> string" where
  "latin1_char c =
     (let n = (of_char c :: nat)
      in if n < 128 then [c] else [char_of (192 + n div 64), char_of (128 + n mod 64)])"

text \<open>The file that \<open>open(p, 'w')\<close> and writing the text \<open>s\<close> leaves (UTF-8 locale).\<close>

definition text_file :: "string \<Rightarrow> file_io" where
  "text_file s =
     \<lparr> read_rb = Inr s,
       read_utf8 = Inr (universal_newlines False s),
       read_latin1 = Inr (universal_newlines False (concat (map latin1_char s))),
       read_text = Inr (universal_newlines False s) \<rparr>"

text \<open>
  \<open>open(p, 'w')\<close> and writing: the file is created in an existing directory or replaced;
  a missing parent, a parent or a target that is not of the right kind raise \<open>OSError\<close>.
  Writing to an entry that is neither a regular file nor a directory is not modelled and
  is taken to fail.
\<close>

fun write_file :: "node \<Rightarrow> path \<Rightarrow> file_io \<Rightarrow> error + node" where
  "write_file n [] d = (case n of Reg old \<Rightarrow> Inr (Reg d) | _ \<Rightarrow> Inl OSError)"
| "write_file n (c # cs) d =
     (case n of
        Dir es \<Rightarrow>
          (case map_of es c of
             None \<Rightarrow> if cs = [] then Inr (Dir (AList.update c (Reg d) es)) else Inl OSError
           | Some m \<Rightarrow>
               (case write_file m cs d of
                  Inl e \<Rightarrow> Inl e
                | Inr m' \<Rightarrow> Inr (Dir (AList.update c m' es))))
      | _ \<Rightarrow> Inl OSError)"

section \<open>The searcher\<close>

text \<open>What the run takes from outside the file system: \<open>mimetypes.guess_type\<close> on a
  path string, and what \<open>input()\<close> returns or raises.\<close>

record env =
  guess_type :: "string \<Rightarrow> string option"
  stdin_line :: "error + string"

definition binary_extensions :: "string set" where
  "binary_extensions = set
     [''.exe'', ''.bin'', ''.so'', ''.dll'', ''.dylib'', ''.a'', ''.o'', ''.obj'', ''.class'',
      ''.jar'', ''.war'', ''.ear'', ''.zip'', ''.gz'', ''.tar'', ''.bz2'', ''.xz'', ''.7z'',
      ''.rar'', ''.pdf'', ''.doc'', ''.docx'', ''.xls'', ''.xlsx'', ''.ppt'', ''.pptx'',
      ''.jpg'', ''.jpeg'', ''.png'', ''.gif'', ''.bmp'', ''.tiff'', ''.ico'', ''.svg'',
      ''.mp3'', ''.mp4'', ''.avi'', ''.mov'', ''.wmv'', ''.flv'', ''.mkv'', ''.webm'',
      ''.iso'', ''.dmg'', ''.img'', ''.deb'', ''.rpm'', ''.msi'', ''.woff'', ''.woff2'',
      ''.ttf'', ''.otf'', ''.eot'', ''.pyc'', ''.pyo'', ''.pyd'']"

text \<open>The files a call opens, in order.\<close>

datatype access = Open_rb path | Open_utf8 path | Open_latin1 path

text \<open>The test on the MIME type in \<open>is_binary_file\<close>.\<close>

definition mime_is_binary :: "string option \<Rightarrow> bool" where
  "mime_is_binary mime_type =
     (case mime_type of
        None \<Rightarrow> False
      | Some m \<Rightarrow>
          m \<noteq> [] \<and> \<not> startswith m ''text/'' \<and> m \<noteq> ''application/json''
          \<and> m \<noteq> ''application/xml'' \<and> m \<noteq> ''text/xml'')"

text \<open>\<open>is_binary_file\<close>: the verdict, or the exception that leaves the call, and the files
  opened.\<close>

definition is_binary_file :: "env \<Rightarrow> node \<Rightarrow> path \<Rightarrow> (error + bool) \<times> access list" where
  "is_binary_file e fs file_path =
     (if lower (suffix file_path) \<in> binary_extensions then (Inr True, [])
      else if mime_is_binary (guess_type e (path_str file_path)) then (Inr True, [])
      else
        (case open_read read_rb fs file_path of
           Inr bytes \<Rightarrow> (Inr (CHR 0x00 \<in> set (take 1024 bytes)), [Open_rb file_path])
         | Inl err \<Rightarrow> (if err = OSError then Inr True else Inl err, [Open_rb file_path])))"

text \<open>\<open>search_file_content\<close>.\<close>

definition search_file_content ::
    "env \<Rightarrow> node \<Rightarrow> path \<Rightarrow> string \<Rightarrow> (error + bool) \<times> access list" where
  "search_file_content e fs file_path domain =
     (case is_binary_file e fs file_path of
        (Inl err, tr) \<Rightarrow> (Inl err, tr)
      | (Inr True, tr) \<Rightarrow> (Inr False, tr)
      | (Inr False, tr) \<Rightarrow>
          (case open_read read_utf8 fs file_path of
             Inr content \<Rightarrow> (Inr (contains content domain), tr @ [Open_utf8 file_path])
           | Inl err \<Rightarrow>
               if err = OSError \<or> err = UnicodeDecodeError then
                 (case open_read read_latin1 fs file_path of
                    Inr content \<Rightarrow>
                      (Inr (contains content domain),
                       tr @ [Open_utf8 file_path, Open_latin1 file_path])
                  | Inl err' \<Rightarrow>
                      (if err' = OSError then Inr False else Inl err',
                       tr @ [Open_utf8 file_path, Open_latin1 file_path]))
               else (Inl err, tr @ [Open_utf8 file_path])))"

text \<open>The fields of an \<open>EmailDomainSearcher\<close>: the resolved search path, the two file
  paths and the domain (empty until it is set). \<open>excluded_dirs\<close> is what
  \<open>load_excluded_dirs\<close> returns; \<open>debug\<close> only prints and is left out.\<close>

record searcher =
  search_path :: path
  exclude_dirs_file :: path
  output_file :: path
  domain :: string

text \<open>\<open>sep.join(xs)\<close>.\<close>

fun join :: "string \<Rightarrow> string list \<Rightarrow> string" where
  "join sep [] = []"
| "join sep [x] = x"
| "join sep (x # y # ys) = x @ sep @ join sep (y # ys)"

definition default_excludes :: "string list" where
  "default_excludes =
     [''# Directories to exclude from search (one per line)'',
      ''# Lines starting with # are comments'',
      ''logs'', ''.git'', ''.svn'', ''.hg'', ''node_modules'', ''.npm'', ''.yarn'',
      ''vendor'', ''cache'', ''tmp'', ''temp'', ''.cache'', ''build'', ''dist'',
      ''target'', ''.idea'', ''.vscode'', ''.DS_Store'', ''__pycache__'',
      ''*.egg-info'', ''.pytest_cache'', ''.coverage'', ''htmlcov'',
      ''.tox'', ''.venv'', ''venv'', ''env'', ''.mypy_cache'', ''.terraform'',
      ''bower_components'', ''jspm_packages'', ''web_modules'']"

text \<open>\<open>get_domain\<close>: the domain already set, or the line read, stripped and prefixed.\<close>

definition get_domain :: "searcher \<Rightarrow> env \<Rightarrow> error + string" where
  "get_domain self e =
     (if domain self = [] then
        (case stdin_line e of
           Inl err \<Rightarrow> Inl err
         | Inr line \<Rightarrow>
             (let d = strip line in Inr (if startswith d ''@'' then d else CHR ''@'' # d)))
      else Inr (domain self))"

text \<open>\<open>create_default_exclude_file\<close>, and the file it writes.\<close>

definition default_exclude_file :: file_io where
  "default_exclude_file = text_file (join ''\<newline>'' default_excludes @ ''\<newline>'')"

definition create_default_exclude_file :: "searcher \<Rightarrow> node \<Rightarrow> error + node" where
  "create_default_exclude_file self fs =
     write_file fs (exclude_dirs_file self) default_exclude_file"

text \<open>Iterating over a text file: its lines, each with the newline that ends it.\<close>

fun file_lines :: "string \<Rightarrow> string list" where
  "file_lines [] = []"
| "file_lines (c # cs) =
     (if c = CHR 0x0A then [c] # file_lines cs
      else (case file_lines cs of [] \<Rightarrow> [[c]] | l # ls \<Rightarrow> (c # l) # ls))"

text \<open>The body of the loop of \<open>load_excluded_dirs\<close>, and the loop.\<close>

definition add_line :: "string \<Rightarrow> string set \<Rightarrow> string set" where
  "add_line line excluded =
     (let l = strip line
      in if l \<noteq> [] \<and> \<not> startswith l ''#'' then insert l excluded else excluded)"

definition add_lines :: "string list \<Rightarrow> string set \<Rightarrow> string set" where
  "add_lines ls excluded = fold add_line ls excluded"

text \<open>\<open>load_excluded_dirs\<close>: the set loaded, and the file system, where the rule file
  may have been created.\<close>

definition load_excluded_dirs :: "searcher \<Rightarrow> node \<Rightarrow> (error + string set) \<times> node" where
  "load_excluded_dirs self fs =
     (case (if \<not> path_exists fs (exclude_dirs_file self)
            then create_default_exclude_file self fs else Inr fs) of
        Inl err \<Rightarrow> (Inl err, fs)
      | Inr fs1 \<Rightarrow>
          (case open_read read_text fs1 (exclude_dirs_file self) of
             Inl err \<Rightarrow> (Inl err, fs1)
           | Inr content \<Rightarrow> (Inr (add_lines (file_lines content) {}), fs1)))"

text \<open>\<open>is_excluded_dir\<close>.\<close>

definition is_excluded_dir :: "string set \<Rightarrow> path \<Rightarrow> bool" where
  "is_excluded_dir excluded dir_path = (path_name dir_path \<in> excluded)"

text \<open>
  \<open>os.walk\<close> from a directory with the body of the loop of \<open>find_files\<close>: the entries of
  the directory that are not directories (\<open>files\<close>) and are regular files
  (\<open>is_file()\<close>) are yielded, then the walk enters, in order, the subdirectories that the
  loop body kept in \<open>dirs\<close>. Listing a directory and \<open>is_file()\<close> are taken not to
  raise.
\<close>

fun walk :: "string set \<Rightarrow> path \<Rightarrow> node \<Rightarrow> path list"
  and walk_dirs :: "string set \<Rightarrow> path \<Rightarrow> (string \<times> node) list \<Rightarrow> path list" where
  "walk excluded root_path (Dir es) =
     map (\<lambda>(f, n). root_path @ [f]) (filter (\<lambda>(f, n). \<not> is_dir_node n \<and> is_reg_node n) es)
     @ walk_dirs excluded root_path es"
| "walk excluded root_path (Reg d) = []"
| "walk excluded root_path NonReg = []"
| "walk_dirs excluded root_path [] = []"
| "walk_dirs excluded root_path ((d, n) # es) =
     (if is_dir_node n \<and> \<not> is_excluded_dir excluded (root_path @ [d])
      then walk excluded (root_path @ [d]) n else [])
     @ walk_dirs excluded root_path es"

text \<open>\<open>find_files\<close>: the paths yielded, in order.\<close>

definition find_files :: "string set \<Rightarrow> path \<Rightarrow> node \<Rightarrow> path list" where
  "find_files excluded root fs =
     (case lookup fs root of Some n \<Rightarrow> walk excluded root n | None \<Rightarrow> [])"

text \<open>The loop of \<open>search_domain\<close> over the files yielded: \<open>matching_files\<close>, or the
  exception that ends the loop.\<close>

fun scan_files :: "env \<Rightarrow> node \<Rightarrow> string \<Rightarrow> path list \<Rightarrow> path list \<Rightarrow> error + path list" where
  "scan_files e fs d [] matching_files = Inr matching_files"
| "scan_files e fs d (file_path # rest) matching_files =
     (case fst (search_file_content e fs file_path d) of
        Inl err \<Rightarrow> Inl err
      | Inr found \<Rightarrow>
          scan_files e fs d rest
            (if found then matching_files @ [file_path] else matching_files))"

text \<open>\<open>search_domain\<close>: \<open>sorted(set(matching_files))\<close>; paths compare by their
  components, in order.\<close>

definition search_domain :: "searcher \<Rightarrow> env \<Rightarrow> node \<Rightarrow> (error + path list) \<times> node" where
  "search_domain self e fs =
     (case get_domain self e of
        Inl err \<Rightarrow> (Inl err, fs)
      | Inr d \<Rightarrow>
          (case load_excluded_dirs self fs of
             (Inl err, fs1) \<Rightarrow> (Inl err, fs1)
           | (Inr excluded, fs1) \<Rightarrow>
               (case scan_files e fs1 d (find_files excluded (search_path self) fs1) [] of
                  Inl err \<Rightarrow> (Inl err, fs1)
                | Inr matching_files \<Rightarrow> (Inr (sort (remdups matching_files)), fs1))))"

text \<open>The text \<open>save_results\<close> writes, and \<open>save_results\<close>.\<close>

definition results_text :: "path list \<Rightarrow> string" where
  "results_text results = concat (map (\<lambda>file_path. path_str file_path @ ''\<newline>'') results)"

definition save_results :: "searcher \<Rightarrow> node \<Rightarrow> path list \<Rightarrow> error + node" where
  "save_results self fs results =
     write_file fs (output_file self) (text_file (results_text results))"

text \<open>What leaves \<open>run\<close>: an exception of a call, or \<open>sys.exit\<close>.\<close>

datatype exn = Raise error | SystemExit nat

text \<open>\<open>run\<close>: the results it reports, or what it raises, and the file system it leaves.\<close>

definition run :: "searcher \<Rightarrow> env \<Rightarrow> node \<Rightarrow> (exn + path list) \<times> node" where
  "run self e fs =
     (if \<not> path_exists fs (search_path self) then (Inl (SystemExit 1), fs)
      else if \<not> path_is_dir fs (search_path self) then (Inl (SystemExit 1), fs)
      else
        (case search_domain self e fs of
           (Inl err, fs1) \<Rightarrow> (Inl (Raise err), fs1)
         | (Inr results, fs1) \<Rightarrow>
             (case save_results self fs1 results of
                Inl err \<Rightarrow> (Inl (Raise err), fs1)
              | Inr fs2 \<Rightarrow> (Inr results, fs2))))"




section \<open>Notions the claims use\<close>

text \<open>A blank line has white space characters only; a comment line has \<open>#\<close> as its
  first character that is not white space.\<close>

definition blank_line :: "string \<Rightarrow> bool" where
  "blank_line l = (\<forall>ch \<in> set (chars l). isspace ch)"

definition comment_line :: "string \<Rightarrow> bool" where
  "comment_line l =
     (case dropWhile isspace (chars l) of [] \<Rightarrow> False | ch # rest \<Rightarrow> ch = ''#'')"

text \<open>What a path names, without the entries of a directory: two file systems with the
  same kind at every path have the same files with the same contents in the same
  directories.\<close>

datatype kind = KReg file_io | KNonReg | KDir

fun node_kind :: "node \<Rightarrow> kind" where
  "node_kind (Reg d) = KReg d"
| "node_kind NonReg = KNonReg"
| "node_kind (Dir es) = KDir"

definition kind_at :: "node \<Rightarrow> path \<Rightarrow> kind option" where
  "kind_at fs p = map_option node_kind (lookup fs p)"




section \<open>Example inputs\<close>

text \<open>A guess by the extension of the path string, as \<open>mimetypes\<close> makes for these
  three.\<close>

definition demo_guess_type :: "string \<Rightarrow> string option" where
  "demo_guess_type s =
     map_of [(''.txt'', ''text/plain''), (''.json'', ''application/json''),
             (''.com'', ''application/x-msdos-program'')] (lower (suffix [s]))"

definition demo_env :: env where
  "demo_env = \<lparr> guess_type = demo_guess_type, stdin_line = Inr '' d.txt '' \<rparr>"

definition demo_fs :: node where
  "demo_fs =
     Dir [(''r'', Dir [(''a.txt'', Reg (text_file ''x@d y'')),
                       (''a'', Dir [(''b'', Reg (text_file ''@d''))]),
                       (''build'', Dir [(''c.txt'', Reg (text_file ''@d''))]),
                       (''z.bin'', Reg (text_file ''@d''))]),
          (''ex.txt'', Reg (text_file ''# c\<newline> build  \<newline>''))]"

definition demo_searcher :: searcher where
  "demo_searcher =
     \<lparr> search_path = [''r''], exclude_dirs_file = [''ex.txt''], output_file = [''out.txt''],
       domain = ''@d'' \<rparr>"

text \<open>The example after a run, with the output file.\<close>

definition demo_fs_after :: node where
  "demo_fs_after =
     Dir [(''r'', Dir [(''a.txt'', Reg (text_file ''x@d y'')),
                       (''a'', Dir [(''b'', Reg (text_file ''@d''))]),
                       (''build'', Dir [(''c.txt'', Reg (text_file ''@d''))]),
                       (''z.bin'', Reg (text_file ''@d''))]),
          (''ex.txt'', Reg (text_file ''# c\<newline> build  \<newline>'')),
          (''out.txt'', Reg (text_file ''/r/a/b\<newline>/r/a.txt\<newline>''))]"




definition clobber_searcher :: searcher where
  "clobber_searcher =
     \<lparr> search_path = [''r''], exclude_dirs_file = [''ex.txt''], output_file = [''ex.txt''],
       domain = ''@d'' \<rparr>"



definition bare_fs :: node where
  "bare_fs = Dir [(''r'', Dir [(''a.txt'', Reg (text_file ''x@d y''))])]"



text \<open>A rule file whose line ends with a no-break space (U+00A0).\<close>

definition nbsp_fs :: node where
  "nbsp_fs =
     Dir [(''r'', Dir [(''a.txt'', Reg (text_file ''x@d y''))]),
          (''ex.txt'', Reg (text_file (''build'' @ [CHR 0xC2, CHR 0xA0, CHR 0x0A])))]"

section \<open>Lemmas\<close>



lemma dropWhile_all: "(\<forall>x \<in> set (dropWhile P l). P x) \<longleftrightarrow> (\<forall>x \<in> set l. P x)"
proof
  assume a: "\<forall>x \<in> set (dropWhile P l). P x"
  have "dropWhile P l = []"
  proof (rule ccontr)
    assume ne: "dropWhile P l \<noteq> []"
    then have "\<not> P (hd (dropWhile P l))" by (rule hd_dropWhile)
    moreover have "hd (dropWhile P l) \<in> set (dropWhile P l)" using ne by simp
    ultimately show False using a by blast
  qed
  then show "\<forall>x \<in> set l. P x" by (simp add: dropWhile_eq_Nil_conv)
next
  assume "\<forall>x \<in> set l. P x"
  then show "\<forall>x \<in> set (dropWhile P l). P x" by (meson set_dropWhileD)
qed

lemma chars_group:
  "g \<in> set (chars s) \<Longrightarrow> g \<noteq> [] \<and> (hd g < CHR 0x80 \<longrightarrow> g = [hd g])"
proof (induction s arbitrary: g)
  case Nil
  then show ?case by simp
next
  case (Cons c cs)
  show ?case
  proof (cases "chars cs")
    case Nil
    with Cons.prems show ?thesis by simp
  next
    case (Cons h hs)
    with Cons.IH have ih: "\<And>g. g \<in> set (h # hs) \<Longrightarrow> g \<noteq> [] \<and> (hd g < CHR 0x80 \<longrightarrow> g = [hd g])"
      by simp
    from Cons.prems Cons consider "g = c # h" "CHR 0x80 \<le> c" | "g = [c]" | "g \<in> set (h # hs)"
      by (auto split: if_splits)
    then show ?thesis
    proof cases
      case 1
      then show ?thesis by auto
    next
      case 2
      then show ?thesis by simp
    next
      case 3
      then show ?thesis using ih by blast
    qed
  qed
qed

lemma strip_Nil_iff: "strip l = [] \<longleftrightarrow> blank_line l"
proof -
  let ?kept = "dropWhile isspace (rev (dropWhile isspace (chars l)))"
  have sub: "set ?kept \<subseteq> set (chars l)"
  proof
    fix x assume "x \<in> set ?kept"
    then have "x \<in> set (rev (dropWhile isspace (chars l)))" by (rule set_dropWhileD)
    then have "x \<in> set (dropWhile isspace (chars l))" by simp
    then show "x \<in> set (chars l)" by (rule set_dropWhileD)
  qed
  have "strip l = [] \<longleftrightarrow> (\<forall>g \<in> set ?kept. g = [])" by (simp add: strip_def)
  also have "\<dots> \<longleftrightarrow> ?kept = []"
  proof
    assume a: "\<forall>g \<in> set ?kept. g = []"
    show "?kept = []"
    proof (rule ccontr)
      assume "?kept \<noteq> []"
      then obtain g where g: "g \<in> set ?kept" by (cases ?kept) auto
      with sub have "g \<in> set (chars l)" by blast
      then have "g \<noteq> []" using chars_group by blast
      with a g show False by blast
    qed
  next
    assume e: "?kept = []"
    show "\<forall>g \<in> set ?kept. g = []" unfolding e by simp
  qed
  also have "\<dots> \<longleftrightarrow> (\<forall>x \<in> set (dropWhile isspace (chars l)). isspace x)"
    by (simp add: dropWhile_eq_Nil_conv)
  also have "\<dots> \<longleftrightarrow> blank_line l" by (simp add: dropWhile_all blank_line_def)
  finally show ?thesis .
qed

lemma strip_Cons:
  "dropWhile isspace (chars l) = ch # r \<Longrightarrow>
     strip l = ch @ concat (rev (dropWhile isspace (rev r)))"
proof -
  assume a: "dropWhile isspace (chars l) = ch # r"
  then have "\<not> isspace ch" using hd_dropWhile[of isspace "chars l"] by auto
  then show ?thesis using a by (simp add: strip_def dropWhile_append3)
qed

lemma strip_comment: "startswith (strip l) ''#'' \<longleftrightarrow> comment_line l"
proof (cases "dropWhile isspace (chars l)")
  case Nil
  have "strip l = []" unfolding strip_def Nil by simp
  then show ?thesis unfolding comment_line_def Nil by simp
next
  case (Cons ch r)
  have "ch \<in> set (dropWhile isspace (chars l))" using Cons by simp
  then have "ch \<in> set (chars l)" by (rule set_dropWhileD)
  from chars_group[OF this] have ne: "ch \<noteq> []" and single: "hd ch < CHR 0x80 \<longrightarrow> ch = [hd ch]"
    by blast+
  from ne obtain c cs where ch: "ch = c # cs" by (cases ch) auto
  have "startswith (strip l) ''#'' \<longleftrightarrow> c = CHR ''#''"
    unfolding strip_Cons[OF Cons] ch by simp
  also have "\<dots> \<longleftrightarrow> ch = ''#''"
  proof
    assume c: "c = CHR ''#''"
    then have "hd ch < CHR 0x80" using ch by (simp add: less_char_def)
    with single ch c show "ch = ''#''" by simp
  next
    assume "ch = ''#''"
    with ch show "c = CHR ''#''" by simp
  qed
  finally show ?thesis unfolding comment_line_def Cons by simp
qed


lemma add_lines_set:
  "add_lines ls ex = ex \<union> {strip l | l. l \<in> set ls \<and> \<not> blank_line l \<and> \<not> comment_line l}"
  unfolding add_lines_def
proof (induction ls arbitrary: ex)
  case Nil
  then show ?case by simp
next
  case (Cons a ls)
  show ?case
    unfolding fold_simps Cons.IH
    by (auto simp: add_line_def Let_def strip_Nil_iff strip_comment)
qed

lemma walk_below:
  "p \<in> set (walk ex root n) \<Longrightarrow>
     \<exists>rel. p = root @ rel \<and> rel \<noteq> [] \<and> set (butlast rel) \<inter> ex = {}"
  and walk_dirs_below:
  "p \<in> set (walk_dirs ex root es) \<Longrightarrow>
     \<exists>d rel. p = root @ d # rel \<and> rel \<noteq> [] \<and> d \<notin> ex \<and> set (butlast rel) \<inter> ex = {}"
proof (induction ex root n and ex root es arbitrary: p and p rule: walk_walk_dirs.induct)
  case (1 excluded root_path es)
  from "1.prems" have
    "(\<exists>f. p = root_path @ [f]) \<or> p \<in> set (walk_dirs excluded root_path es)" by auto
  then show ?case
  proof (elim disjE exE)
    fix f assume "p = root_path @ [f]"
    then show ?thesis by auto
  next
    assume 2: "p \<in> set (walk_dirs excluded root_path es)"
    from "1.IH"[OF 2] obtain d rel where
      "p = root_path @ d # rel" "rel \<noteq> []" "d \<notin> excluded" "set (butlast rel) \<inter> excluded = {}"
      by blast
    then have "p = root_path @ (d # rel) \<and> d # rel \<noteq> [] \<and> set (butlast (d # rel)) \<inter> excluded = {}"
      by simp
    then show ?thesis by blast
  qed
next
  case (5 excluded root_path d n es)
  show ?case
  proof (cases "is_dir_node n \<and> \<not> is_excluded_dir excluded (root_path @ [d]) \<and> p \<in> set (walk excluded (root_path @ [d]) n)")
    case True
    then have nd: "d \<notin> excluded" by (simp add: is_excluded_dir_def path_name_def)
    from True "5.IH"(1) obtain rel where "p = (root_path @ [d]) @ rel" "rel \<noteq> []" "set (butlast rel) \<inter> excluded = {}"
      by blast
    with nd show ?thesis by auto
  next
    case False
    with "5.prems" have "p \<in> set (walk_dirs excluded root_path es)" by (auto split: if_splits)
    from "5.IH"(2)[OF this] show ?thesis .
  qed
qed simp_all


lemma lookup_write_same: "write_file fs p d = Inr fs' \<Longrightarrow> lookup fs' p = Some (Reg d)"
proof (induction p arbitrary: fs fs')
  case Nil
  then show ?case by (cases fs) auto
next
  case (Cons c cs)
  then show ?case
    by (cases fs) (auto split: option.splits sum.splits if_splits simp: update_conv')
qed

lemma write_file_frame:
  "write_file fs p d = Inr fs' \<Longrightarrow> q \<noteq> p \<Longrightarrow> kind_at fs' q = kind_at fs q"
proof (induction p arbitrary: fs fs' q)
  case Nil
  then show ?case by (cases fs; cases q) (auto simp: kind_at_def)
next
  case (Cons c cs)
  from Cons.prems(1) obtain es where fs: "fs = Dir es" by (cases fs) auto
  show ?case
  proof (cases q)
    case Nil
    with Cons.prems fs show ?thesis
      by (auto simp: kind_at_def split: option.splits sum.splits if_splits)
  next
    case q: (Cons c' qs)
    show ?thesis
    proof (cases "c' = c")
      case False
      with Cons.prems fs q show ?thesis
        by (auto simp: kind_at_def update_conv' split: option.splits sum.splits if_splits)
    next
      case True
      show ?thesis
      proof (cases "map_of es c")
        case None
        with Cons.prems fs q True show ?thesis
          by (cases qs) (auto simp: kind_at_def update_conv' split: if_splits)
      next
        case (Some m)
        with Cons.prems(1) fs obtain m' where w: "write_file m cs d = Inr m'"
          and fs': "fs' = Dir (AList.update c m' es)"
          by (auto split: sum.splits)
        from Cons.prems(2) q True have "qs \<noteq> cs" by simp
        from Cons.IH[OF w this] have "kind_at m' qs = kind_at m qs" .
        with fs fs' q True Some show ?thesis
          by (simp add: kind_at_def update_conv')
      qed
    qed
  qed
qed


lemma path_exists_kind: "path_exists fs p \<longleftrightarrow> kind_at fs p \<noteq> None"
  by (simp add: path_exists_def kind_at_def)






lemma scan_files_Inr:
  "scan_files e fs d ps acc = Inr ms \<Longrightarrow>
     ms = acc @ filter (\<lambda>p. fst (search_file_content e fs p d) = Inr True) ps"
proof (induction ps arbitrary: acc)
  case Nil
  then show ?case by simp
next
  case (Cons p ps)
  from Cons.prems obtain found where f: "fst (search_file_content e fs p d) = Inr found"
    and r: "scan_files e fs d ps (if found then acc @ [p] else acc) = Inr ms"
    by (auto split: sum.splits)
  from Cons.IH[OF r] f show ?case by (cases found) simp_all
qed


lemma search_domain_Inr:
  assumes "search_domain self e fs = (Inr results, fs1)"
  obtains d ex ms where
    "get_domain self e = Inr d"
    "load_excluded_dirs self fs = (Inr ex, fs1)"
    "scan_files e fs1 d (find_files ex (search_path self) fs1) [] = Inr ms"
    "results = sort (remdups ms)"
proof -
  from assms obtain d where d: "get_domain self e = Inr d"
    by (cases "get_domain self e") (simp_all add: search_domain_def)
  obtain r fs1' where l: "load_excluded_dirs self fs = (r, fs1')"
    by (cases "load_excluded_dirs self fs")
  from assms d l obtain ex where ex: "r = Inr ex"
    by (cases r) (simp_all add: search_domain_def)
  from assms d l ex obtain ms where
    ms: "scan_files e fs1' d (find_files ex (search_path self) fs1') [] = Inr ms"
    by (cases "scan_files e fs1' d (find_files ex (search_path self) fs1') []")
       (simp_all add: search_domain_def)
  from assms d l ex ms have "fs1' = fs1" "results = sort (remdups ms)"
    by (simp_all add: search_domain_def)
  with d l ex ms that show thesis by blast
qed

lemma run_Inr:
  assumes "run self e fs = (Inr results, fs')"
  obtains fs1 where
    "path_is_dir fs (search_path self)"
    "search_domain self e fs = (Inr results, fs1)"
    "save_results self fs1 results = Inr fs'"
proof -
  from assms have ex: "path_exists fs (search_path self)" and dir: "path_is_dir fs (search_path self)"
    by (auto simp: run_def split: if_splits)
  obtain r fs1 where sd: "search_domain self e fs = (r, fs1)"
    by (cases "search_domain self e fs")
  from assms ex dir sd obtain rs where rs: "r = Inr rs"
    by (cases r) (simp_all add: run_def)
  from assms ex dir sd rs obtain fs2 where sv: "save_results self fs1 rs = Inr fs2"
    by (cases "save_results self fs1 rs") (simp_all add: run_def)
  from assms ex dir sd rs sv have "rs = results" "fs2 = fs'"
    by (simp_all add: run_def)
  with dir sd rs sv that show thesis by blast
qed

lemma walk_yields_entry: "(f, Reg d) \<in> set es \<Longrightarrow> root @ [f] \<in> set (walk excluded root (Dir es))"
  by force



lemma run_results:
  assumes "run self e fs = (Inr results, fs')"
  obtains d ex fs1 where
    "get_domain self e = Inr d"
    "load_excluded_dirs self fs = (Inr ex, fs1)"
    "results = sort (remdups (filter (\<lambda>p. fst (search_file_content e fs1 p d) = Inr True)
                                 (find_files ex (search_path self) fs1)))"
    "write_file fs1 (output_file self) (text_file (results_text results)) = Inr fs'"
proof -
  from run_Inr[OF assms] obtain fs1 where
    sd: "search_domain self e fs = (Inr results, fs1)" and
    sv: "save_results self fs1 results = Inr fs'" by blast
  from search_domain_Inr[OF sd] obtain d ex ms where
    d: "get_domain self e = Inr d" and l: "load_excluded_dirs self fs = (Inr ex, fs1)" and
    ms: "scan_files e fs1 d (find_files ex (search_path self) fs1) [] = Inr ms" and
    r: "results = sort (remdups ms)" by blast
  from scan_files_Inr[OF ms] r have
    "results = sort (remdups (filter (\<lambda>p. fst (search_file_content e fs1 p d) = Inr True)
                                 (find_files ex (search_path self) fs1)))" by simp
  with d l sv that show thesis by (simp add: save_results_def)
qed

lemma load_excluded_dirs_fs:
  "load_excluded_dirs self fs = (r, fs1) \<Longrightarrow>
     fs1 = fs \<or> (\<not> path_exists fs (exclude_dirs_file self) \<and>
                  write_file fs (exclude_dirs_file self) default_exclude_file = Inr fs1)"
  by (auto simp: load_excluded_dirs_def create_default_exclude_file_def default_exclude_file_def
           split: if_splits sum.splits)

lemma search_domain_fs:
  "search_domain self e fs = (r, fs1) \<Longrightarrow>
     fs1 = fs \<or> (\<not> path_exists fs (exclude_dirs_file self) \<and>
                  write_file fs (exclude_dirs_file self) default_exclude_file = Inr fs1)"
proof -
  assume a: "search_domain self e fs = (r, fs1)"
  show ?thesis
  proof (cases "get_domain self e")
    case (Inl err)
    with a show ?thesis by (simp add: search_domain_def)
  next
    case (Inr d)
    obtain r' fs1' where l: "load_excluded_dirs self fs = (r', fs1')"
      by (cases "load_excluded_dirs self fs")
    from a Inr l have "fs1 = fs1'"
      by (cases r') (auto simp: search_domain_def split: sum.splits)
    with load_excluded_dirs_fs[OF l] show ?thesis by simp
  qed
qed

lemma run_fs:
  assumes "run self e fs = (r, fs')"
  obtains fs1 where
    "fs1 = fs \<or> (\<not> path_exists fs (exclude_dirs_file self) \<and>
                  write_file fs (exclude_dirs_file self) default_exclude_file = Inr fs1)"
    "fs' = fs1 \<or> (\<exists>d. write_file fs1 (output_file self) d = Inr fs')"
proof (cases "path_exists fs (search_path self) \<and> path_is_dir fs (search_path self)")
  case False
  with assms have "fs' = fs" by (auto simp: run_def split: if_splits)
  with that show thesis by blast
next
  case True
  obtain r1 fs1 where sd: "search_domain self e fs = (r1, fs1)"
    by (cases "search_domain self e fs")
  from assms True sd have "fs' = fs1 \<or> (\<exists>d. write_file fs1 (output_file self) d = Inr fs')"
    by (cases r1) (auto simp: run_def save_results_def split: sum.splits)
  with search_domain_fs[OF sd] that show thesis by blast
qed























lemma demo_run:
  "run demo_searcher demo_env demo_fs = (Inr [[''r'', ''a'', ''b''], [''r'', ''a.txt'']], demo_fs_after)"
  by code_simp



section \<open>Claims\<close>

subsection \<open>The tree walker\<close>

text \<open>
  Claim C1, amended. Every path that \<open>find_files\<close> yields lies below the search root, and
  no directory strictly between the search root and the file has a name in the exclusion
  set, at any depth. The search root itself, and the directories above it, are not tested
  against the set.
\<close>

theorem excluded_below_root_never_yielded:
  "p \<in> set (find_files excluded root fs) \<Longrightarrow>
     (\<exists>rel. p = root @ rel \<and> rel \<noteq> []) \<and>
     (\<forall>ds d rest. p = root @ ds @ d # rest \<and> rest \<noteq> [] \<longrightarrow> d \<notin> excluded)"
proof -
  assume "p \<in> set (find_files excluded root fs)"
  then obtain n where "p \<in> set (walk excluded root n)"
    by (auto simp: find_files_def split: option.splits)
  from walk_below[OF this] obtain rel where
    rel: "p = root @ rel" "rel \<noteq> []" "set (butlast rel) \<inter> excluded = {}" by blast
  have "d \<notin> excluded" if "p = root @ ds @ d # rest" "rest \<noteq> []" for ds d rest
  proof -
    from that rel have "rel = ds @ d # rest" by simp
    with that have "d \<in> set (butlast rel)" by (simp add: butlast_append)
    with rel show ?thesis by blast
  qed
  with rel show ?thesis by blast
qed

text \<open>The file \<open>/r/a/b\<close> is yielded with \<open>build\<close> excluded, and \<open>a\<close> is not excluded.\<close>

theorem excluded_below_root_never_yielded_witness:
  "[''r'', ''a'', ''b''] \<in> set (find_files {''build''} [''r''] demo_fs) \<and> ''a'' \<notin> {''build''}"
proof -
  have m: "[''r'', ''a'', ''b''] \<in> set (find_files {''build''} [''r''] demo_fs)" by code_simp
  from excluded_below_root_never_yielded[OF m]
  have "\<forall>ds d rest. [''r'', ''a'', ''b''] = [''r''] @ ds @ d # rest \<and> rest \<noteq> [] \<longrightarrow> d \<notin> {''build''}"
    by blast
  then have "[''r'', ''a'', ''b''] = [''r''] @ [] @ ''a'' # [''b''] \<and> [''b''] \<noteq> [] \<longrightarrow> ''a'' \<notin> {''build''}"
    by blast
  with m show ?thesis by simp
qed

text \<open>Claim C1 as stated fails when the excluded directory is the search root: with
  \<open>build\<close> excluded and \<open>/build\<close> the search root, \<open>/build/f.txt\<close> is yielded.\<close>

theorem excluded_root_is_walked:
  "[''build'', ''f.txt'']
     \<in> set (find_files {''build''} [''build'']
              (Dir [(''build'', Dir [(''f.txt'', Reg (text_file ''x''))])]))"
  by code_simp

text \<open>
  Claim C9. The exclusion set is applied to the subdirectories found during the descent
  and never to the search root: every regular file directly inside the search root is
  yielded, whatever the exclusion set holds, the name of the root included, and when the
  loop over the yielded files completes, the file is among the matches exactly when
  \<open>search_file_content\<close> is true of it.
\<close>

theorem root_is_never_pruned:
  "lookup fs root = Some (Dir es) \<Longrightarrow> (f, Reg d) \<in> set es \<Longrightarrow>
     root @ [f] \<in> set (find_files excluded root fs) \<and>
     (\<forall>e dm ms. scan_files e fs dm (find_files excluded root fs) [] = Inr ms \<longrightarrow>
        (root @ [f] \<in> set ms \<longleftrightarrow> fst (search_file_content e fs (root @ [f]) dm) = Inr True))"
proof -
  assume l: "lookup fs root = Some (Dir es)" and m: "(f, Reg d) \<in> set es"
  from walk_yields_entry[OF m, of root excluded] l
  have y: "root @ [f] \<in> set (find_files excluded root fs)" by (simp add: find_files_def)
  have "root @ [f] \<in> set ms \<longleftrightarrow> fst (search_file_content e fs (root @ [f]) dm) = Inr True"
    if "scan_files e fs dm (find_files excluded root fs) [] = Inr ms" for e dm ms
    using scan_files_Inr[OF that] y by simp
  with y show ?thesis by blast
qed

text \<open>With \<open>/r/build\<close> the search root and \<open>build\<close> excluded, \<open>/r/build/c.txt\<close> is
  yielded and scanned.\<close>

theorem root_is_never_pruned_witness:
  "path_name [''r'', ''build''] \<in> {''build''} \<and>
   [''r'', ''build''] @ [''c.txt''] \<in> set (find_files {''build''} [''r'', ''build''] demo_fs) \<and>
   scan_files demo_env demo_fs ''@d'' (find_files {''build''} [''r'', ''build''] demo_fs) []
     = Inr [[''r'', ''build'', ''c.txt'']]"
proof -
  have l: "lookup demo_fs [''r'', ''build''] = Some (Dir [(''c.txt'', Reg (text_file ''@d''))])"
    by code_simp
  have n: "path_name [''r'', ''build''] \<in> {''build''}" by code_simp
  have s: "scan_files demo_env demo_fs ''@d'' (find_files {''build''} [''r'', ''build''] demo_fs) []
     = Inr [[''r'', ''build'', ''c.txt'']]" by code_simp
  from root_is_never_pruned[OF l, of "''c.txt''" "text_file ''@d''" "{''build''}"] n s
  show ?thesis by simp
qed

subsection \<open>The binary classifier\<close>



subsection \<open>The exclusion loader\<close>

text \<open>
  Claim C4, amended. The set that \<open>load_excluded_dirs\<close> loads holds, for every line of the
  rule file that is neither blank nor a comment, that line with the white space at both
  of its ends removed (the white space of \<open>str.strip()\<close>, the line terminator
  included), and nothing else: no pattern is expanded.
\<close>

theorem exclusion_lines_stripped:
  "load_excluded_dirs self fs = (Inr excluded, fs1) \<Longrightarrow>
     \<exists>content. open_read read_text fs1 (exclude_dirs_file self) = Inr content \<and>
       excluded = {strip l | l. l \<in> set (file_lines content) \<and> \<not> blank_line l \<and> \<not> comment_line l}"
  by (auto simp: load_excluded_dirs_def add_lines_set split: if_splits sum.splits)

text \<open>The rule file of the example has a comment and the line \<open>build\<close> between spaces;
  a line \<open>build\<close> that ends with a no-break space is loaded as \<open>build\<close> too.\<close>

theorem exclusion_lines_stripped_witness:
  "load_excluded_dirs demo_searcher demo_fs = (Inr {''build''}, demo_fs) \<and>
   {''build''} = {strip l | l. l \<in> set (file_lines ''# c\<newline> build  \<newline>'')
                     \<and> \<not> blank_line l \<and> \<not> comment_line l} \<and>
   load_excluded_dirs demo_searcher nbsp_fs = (Inr {''build''}, nbsp_fs) \<and>
   {''build''} = {strip l | l. l \<in> set (file_lines (''build'' @ [CHR 0xC2, CHR 0xA0, CHR 0x0A]))
                     \<and> \<not> blank_line l \<and> \<not> comment_line l}"
proof -
  have h: "load_excluded_dirs demo_searcher demo_fs = (Inr {''build''}, demo_fs)" by code_simp
  have r: "open_read read_text demo_fs (exclude_dirs_file demo_searcher) = Inr ''# c\<newline> build  \<newline>''"
    by code_simp
  have h': "load_excluded_dirs demo_searcher nbsp_fs = (Inr {''build''}, nbsp_fs)" by code_simp
  have r': "open_read read_text nbsp_fs (exclude_dirs_file demo_searcher)
              = Inr (''build'' @ [CHR 0xC2, CHR 0xA0, CHR 0x0A])"
    by code_simp
  from exclusion_lines_stripped[OF h] r have
    "{''build''} = {strip l | l. l \<in> set (file_lines ''# c\<newline> build  \<newline>'')
                     \<and> \<not> blank_line l \<and> \<not> comment_line l}" by simp
  moreover from exclusion_lines_stripped[OF h'] r' have
    "{''build''} = {strip l | l. l \<in> set (file_lines (''build'' @ [CHR 0xC2, CHR 0xA0, CHR 0x0A]))
                     \<and> \<not> blank_line l \<and> \<not> comment_line l}" by simp
  ultimately show ?thesis using h h' by blast
qed

text \<open>Claim C4 as stated fails on a line with white space at its ends: the line
  \<open>build\<close> between spaces is inserted as \<open>build\<close>, not character for character.\<close>

theorem exclusion_line_not_verbatim:
  "file_lines ''# c\<newline> build  \<newline>'' = [''# c\<newline>'', '' build  \<newline>''] \<and>
   open_read read_text demo_fs (exclude_dirs_file demo_searcher) = Inr ''# c\<newline> build  \<newline>'' \<and>
   fst (load_excluded_dirs demo_searcher demo_fs) = Inr {''build''}"
  by code_simp

text \<open>
  Claim C5. For a file whose suffix, in lower case, is in the deny-list,
  \<open>search_file_content\<close> returns false and opens nothing, whatever the file holds and
  whatever the domain is, and no run lists the file in its results.
\<close>

theorem binary_extension_never_scanned:
  "lower (suffix p) \<in> binary_extensions \<Longrightarrow>
     search_file_content e fs p d = (Inr False, []) \<and>
     (\<forall>self fs0 results fs'. run self e fs0 = (Inr results, fs') \<longrightarrow> p \<notin> set results)"
proof -
  assume b: "lower (suffix p) \<in> binary_extensions"
  then have s: "search_file_content e fs p d = (Inr False, [])" for fs d
    by (simp add: search_file_content_def is_binary_file_def)
  have "p \<notin> set results" if a: "run self e fs0 = (Inr results, fs')" for self fs0 results fs'
  proof -
    from run_results[OF a] obtain d ex fs1 where
      "results = sort (remdups (filter (\<lambda>p. fst (search_file_content e fs1 p d) = Inr True)
                                 (find_files ex (search_path self) fs1)))" by blast
    then show ?thesis using s[of fs1 d] by simp
  qed
  with s show ?thesis by blast
qed

text \<open>\<open>/r/z.bin\<close> holds the domain and is yielded by the walk; it is not opened and not
  listed.\<close>

theorem binary_extension_never_scanned_witness:
  "lower (suffix [''r'', ''z.bin'']) \<in> binary_extensions \<and>
   search_file_content demo_env demo_fs [''r'', ''z.bin''] ''@d'' = (Inr False, []) \<and>
   [''r'', ''z.bin''] \<in> set (find_files {''build''} [''r''] demo_fs) \<and>
   [''r'', ''z.bin''] \<notin> set [[''r'', ''a'', ''b''], [''r'', ''a.txt'']]"
proof -
  have h: "lower (suffix [''r'', ''z.bin'']) \<in> binary_extensions" by code_simp
  have y: "[''r'', ''z.bin''] \<in> set (find_files {''build''} [''r''] demo_fs)" by code_simp
  from binary_extension_never_scanned[OF h, of demo_env demo_fs "''@d''"] demo_run h y
  show ?thesis by blast
qed

subsection \<open>The result reporter\<close>

text \<open>
  Claim C3, amended. A run that completes leaves in the output file, whatever was there
  before, the string of every matching candidate path followed by a newline and nothing
  else; the paths written are exactly the yielded paths for which
  \<open>search_file_content\<close> is true, each once, in the order of \<open>pathlib\<close> paths: by
  their components from the root down, each component compared as a string.
\<close>

theorem matches_written_in_component_order:
  "run self e fs = (Inr results, fs') \<Longrightarrow>
     \<exists>d excluded fs1.
       get_domain self e = Inr d \<and> load_excluded_dirs self fs = (Inr excluded, fs1) \<and>
       open_read read_rb fs' (output_file self)
         = Inr (concat (map (\<lambda>p. path_str p @ ''\<newline>'') results)) \<and>
       set results = {p \<in> set (find_files excluded (search_path self) fs1).
                        fst (search_file_content e fs1 p d) = Inr True} \<and>
       distinct results \<and> sorted results"
proof -
  assume a: "run self e fs = (Inr results, fs')"
  from run_results[OF a] obtain d ex fs1 where
    d: "get_domain self e = Inr d" and l: "load_excluded_dirs self fs = (Inr ex, fs1)" and
    r: "results = sort (remdups (filter (\<lambda>p. fst (search_file_content e fs1 p d) = Inr True)
                                 (find_files ex (search_path self) fs1)))" and
    w: "write_file fs1 (output_file self) (text_file (results_text results)) = Inr fs'" by blast
  from lookup_write_same[OF w] have
    "open_read read_rb fs' (output_file self) = Inr (results_text results)"
    by (simp add: open_read_def text_file_def)
  then have o: "open_read read_rb fs' (output_file self)
         = Inr (concat (map (\<lambda>p. path_str p @ ''\<newline>'') results))"
    by (simp add: results_text_def)
  from r have s: "set results = {p \<in> set (find_files ex (search_path self) fs1).
                        fst (search_file_content e fs1 p d) = Inr True}" by auto
  from r have "distinct results" "sorted results" by simp_all
  with d l o s show ?thesis by blast
qed

theorem matches_written_in_component_order_witness:
  "run demo_searcher demo_env demo_fs
     = (Inr [[''r'', ''a'', ''b''], [''r'', ''a.txt'']], demo_fs_after) \<and>
   open_read read_rb demo_fs_after (output_file demo_searcher)
     = Inr ''/r/a/b\<newline>/r/a.txt\<newline>'' \<and>
   distinct [[''r'', ''a'', ''b''], [''r'', ''a.txt'']] \<and>
   sorted [[''r'', ''a'', ''b''], [''r'', ''a.txt'']]"
proof -
  from matches_written_in_component_order[OF demo_run] have
    "open_read read_rb demo_fs_after (output_file demo_searcher)
       = Inr (concat (map (\<lambda>p. path_str p @ ''\<newline>'') [[''r'', ''a'', ''b''], [''r'', ''a.txt'']]))"
    "distinct [[''r'', ''a'', ''b''], [''r'', ''a.txt'']]"
    "sorted [[''r'', ''a'', ''b''], [''r'', ''a.txt'']]"
    by blast+
  with demo_run show ?thesis by (simp add: path_str_def)
qed

text \<open>Claim C3 as stated fails: the lines written are not in the order of the path strings
  when a name has a character below \<open>/\<close>. The run of the example writes \<open>/r/a/b\<close>
  before \<open>/r/a.txt\<close>.\<close>

theorem output_not_in_string_order:
  "open_read read_rb (snd (run demo_searcher demo_env demo_fs)) (output_file demo_searcher)
     = Inr ''/r/a/b\<newline>/r/a.txt\<newline>'' \<and>
   \<not> sorted [''/r/a/b'', ''/r/a.txt'']"
  by code_simp







subsection \<open>What a run writes\<close>

text \<open>
  Claim C10, amended. A run changes no path but the output file and the rule file. When the
  rule file exists at the start, the run changes no path but the output file, so the rule
  file keeps its content unless it is the output file itself; when the rule file is absent
  and is not the output file, it is absent after the run or holds the default list.
\<close>

theorem run_writes_only_its_two_files:
  "snd (run self e fs) = fs' \<Longrightarrow>
     (\<forall>q. q \<noteq> output_file self \<and> q \<noteq> exclude_dirs_file self \<longrightarrow> kind_at fs' q = kind_at fs q) \<and>
     (path_exists fs (exclude_dirs_file self) \<longrightarrow>
        (\<forall>q. q \<noteq> output_file self \<longrightarrow> kind_at fs' q = kind_at fs q)) \<and>
     (path_exists fs (exclude_dirs_file self) \<and> exclude_dirs_file self \<noteq> output_file self \<longrightarrow>
        kind_at fs' (exclude_dirs_file self) = kind_at fs (exclude_dirs_file self)) \<and>
     (\<not> path_exists fs (exclude_dirs_file self) \<and> exclude_dirs_file self \<noteq> output_file self \<longrightarrow>
        kind_at fs' (exclude_dirs_file self) = None \<or>
        kind_at fs' (exclude_dirs_file self) = Some (KReg default_exclude_file))"
proof -
  assume "snd (run self e fs) = fs'"
  then obtain r where "run self e fs = (r, fs')" by (cases "run self e fs") simp
  from run_fs[OF this] obtain fs1 where
    one: "fs1 = fs \<or> (\<not> path_exists fs (exclude_dirs_file self) \<and>
                  write_file fs (exclude_dirs_file self) default_exclude_file = Inr fs1)" and
    two: "fs' = fs1 \<or> (\<exists>d. write_file fs1 (output_file self) d = Inr fs')" by blast
  have f2: "kind_at fs' q = kind_at fs1 q" if "q \<noteq> output_file self" for q
    using two that write_file_frame by blast
  have f1: "kind_at fs1 q = kind_at fs q" if "q \<noteq> exclude_dirs_file self" for q
    using one that write_file_frame by blast
  have f1': "kind_at fs1 q = kind_at fs q" if "path_exists fs (exclude_dirs_file self)" for q
    using one that by blast
  have c: "kind_at fs1 (exclude_dirs_file self) = None \<or>
           kind_at fs1 (exclude_dirs_file self) = Some (KReg default_exclude_file)"
    if "\<not> path_exists fs (exclude_dirs_file self)"
  proof (cases "fs1 = fs")
    case True
    with that show ?thesis by (simp add: path_exists_kind)
  next
    case False
    with one have "write_file fs (exclude_dirs_file self) default_exclude_file = Inr fs1" by blast
    from lookup_write_same[OF this] show ?thesis by (simp add: kind_at_def)
  qed
  show ?thesis
  proof (intro conjI allI impI)
    fix q assume "q \<noteq> output_file self \<and> q \<noteq> exclude_dirs_file self"
    then show "kind_at fs' q = kind_at fs q" using f1 f2 by simp
  next
    fix q assume "path_exists fs (exclude_dirs_file self)" "q \<noteq> output_file self"
    then show "kind_at fs' q = kind_at fs q" using f1' f2 by simp
  next
    assume "path_exists fs (exclude_dirs_file self) \<and> exclude_dirs_file self \<noteq> output_file self"
    then show "kind_at fs' (exclude_dirs_file self) = kind_at fs (exclude_dirs_file self)"
      using f1' f2 by simp
  next
    assume "\<not> path_exists fs (exclude_dirs_file self) \<and> exclude_dirs_file self \<noteq> output_file self"
    then show "kind_at fs' (exclude_dirs_file self) = None \<or>
        kind_at fs' (exclude_dirs_file self) = Some (KReg default_exclude_file)"
      using c f2 by simp
  qed
qed

theorem run_writes_only_its_two_files_witness:
  "snd (run demo_searcher demo_env demo_fs) = demo_fs_after \<and>
   path_exists demo_fs (exclude_dirs_file demo_searcher) \<and>
   exclude_dirs_file demo_searcher \<noteq> output_file demo_searcher \<and>
   kind_at demo_fs_after [''ex.txt''] = kind_at demo_fs [''ex.txt''] \<and>
   kind_at demo_fs_after [''r'', ''a.txt''] = kind_at demo_fs [''r'', ''a.txt''] \<and>
   \<not> path_exists bare_fs (exclude_dirs_file demo_searcher) \<and>
   kind_at (snd (run demo_searcher demo_env bare_fs)) (exclude_dirs_file demo_searcher)
     = Some (KReg default_exclude_file)"
proof -
  have s: "snd (run demo_searcher demo_env demo_fs) = demo_fs_after" using demo_run by simp
  have p: "path_exists demo_fs (exclude_dirs_file demo_searcher)" by code_simp
  have n: "exclude_dirs_file demo_searcher \<noteq> output_file demo_searcher" by code_simp
  have x: "exclude_dirs_file demo_searcher = [''ex.txt'']" by code_simp
  have q: "[''r'', ''a.txt''] \<noteq> output_file demo_searcher" by code_simp
  have b: "\<not> path_exists bare_fs (exclude_dirs_file demo_searcher)" by code_simp
  have c: "kind_at (snd (run demo_searcher demo_env bare_fs)) (exclude_dirs_file demo_searcher) \<noteq> None"
    by code_simp
  from run_writes_only_its_two_files[OF s] p n x q have
    "kind_at demo_fs_after [''ex.txt''] = kind_at demo_fs [''ex.txt'']"
    "kind_at demo_fs_after [''r'', ''a.txt''] = kind_at demo_fs [''r'', ''a.txt'']"
    by auto
  moreover from run_writes_only_its_two_files[OF refl, of demo_searcher demo_env bare_fs] b n c
  have "kind_at (snd (run demo_searcher demo_env bare_fs)) (exclude_dirs_file demo_searcher)
     = Some (KReg default_exclude_file)" by blast
  ultimately show ?thesis using s p n b by blast
qed

text \<open>Claim C10 as stated fails when the output path is the rule file: the run replaces
  the rules by its results.\<close>

theorem output_can_replace_rule_file:
  "path_exists demo_fs (exclude_dirs_file clobber_searcher) \<and>
   output_file clobber_searcher = exclude_dirs_file clobber_searcher \<and>
   open_read read_text demo_fs (exclude_dirs_file clobber_searcher)
     = Inr ''# c\<newline> build  \<newline>'' \<and>
   fst (run clobber_searcher demo_env demo_fs) = Inr [[''r'', ''a'', ''b''], [''r'', ''a.txt'']] \<and>
   open_read read_text (snd (run clobber_searcher demo_env demo_fs))
       (exclude_dirs_file clobber_searcher)
     = Inr ''/r/a/b\<newline>/r/a.txt\<newline>''"
  by code_simp

subsection \<open>Exit status and the errors of one file\<close>




end
